theory Spec2Isabelle
  imports Main "HOL-Library.DAList"
begin

section \<open>Python values, errors and the external collaborators\<close>

text \<open>
  The arguments \<open>by\<close>, \<open>col\<close> and \<open>na\<close> of \<open>group_by.py\<close> are dynamically typed.
  The code tells them apart with \<open>is_type(v, str)\<close>, \<open>is_type(v, int)\<close>,
  \<open>is_type(v, list, tuple)\<close> and \<open>v is None\<close>; the constructor of \<open>pyval\<close> is that
  dynamic type.  \<open>POther\<close> stands for a value of any further type, one that none of
  these tests accepts.  The code looks at such a value in one more way only, the
  comparison \<open>==\<close> with a column index in \<open>i not in self._by\<close>, so a value of
  another type is either \<open>Numeric n k\<close>, a value that compares equal to the integer
  \<open>n\<close> (the float \<open>1.0\<close> and \<open>True\<close> both equal \<open>1\<close>), or \<open>Opaque k\<close>, a value that
  compares equal to no integer (the float \<open>2.5\<close>, a dictionary); \<open>k\<close> tells apart
  values of the same kind.
\<close>

datatype other = Opaque nat | Numeric int nat

datatype pyval =
    PNone
  | PStr string
  | PInt int
  | PList "pyval list"
  | PTuple "pyval list"
  | POther other

text \<open>The exceptions the code can raise.\<close>

datatype pyerr = ValueError | IndexError | KeyError

text \<open>
  Modelled from the spec: the class \<open>H2OFrame\<close> is not part of the source file.  The
  spec calls it a handle to remotely-held data; \<open>group_by.py\<close> reads its attributes
  \<open>names\<close>, \<open>ncol\<close> and \<open>frame_id\<close>.  The column types are carried along although the
  file never reads them.
\<close>

record H2OFrame =
  frame_id :: string
  names :: "string list"
  ncol :: nat
  types :: "string list"

text \<open>
  Modelled from the spec: \<open>ExprNode\<close> and \<open>H2OFrame._expr\<close> are not part of the source
  file.  An expression node is an operation name with its arguments, in the order
  given; \<open>H2OFrame._expr\<close> wraps one expression into the handle of the frame that
  the remote engine computes from it.
\<close>

datatype expr_arg = ArgFrame H2OFrame | ArgVal pyval

datatype ExprNode = ExprNode string "expr_arg list"

datatype H2OFrame_handle = H2OFrame_expr ExprNode

subsection \<open>Python list and string primitives\<close>

text \<open>\<open>xs.index(x)\<close>: the position of the first occurrence, \<open>ValueError\<close> if none.\<close>

fun list_index :: "'a list \<Rightarrow> 'a \<Rightarrow> pyerr + nat" where
  "list_index [] x = Inl ValueError"
| "list_index (y # ys) x =
     (if y = x then Inr 0
      else (case list_index ys x of Inl e \<Rightarrow> Inl e | Inr k \<Rightarrow> Inr (Suc k)))"

text \<open>\<open>xs[i]\<close>: an index below zero counts from the end, \<open>IndexError\<close> out of range.\<close>

definition getitem :: "'a list \<Rightarrow> int \<Rightarrow> pyerr + 'a" where
  "getitem xs i =
     (if 0 \<le> i \<and> i < int (length xs) then Inr (xs ! nat i)
      else if i < 0 \<and> - int (length xs) \<le> i then Inr (xs ! nat (int (length xs) + i))
      else Inl IndexError)"

text \<open>
  \<open>i == v\<close> for an integer \<open>i\<close>: true of the integer \<open>i\<close> itself and of a value of
  another type that compares equal to it; a string, a list, a tuple and \<open>None\<close> equal
  no integer.
\<close>

fun py_eq_int :: "int \<Rightarrow> pyval \<Rightarrow> bool" where
  "py_eq_int i (PInt j) = (i = j)"
| "py_eq_int i (POther (Numeric j k)) = (i = j)"
| "py_eq_int i (POther (Opaque k)) = False"
| "py_eq_int i PNone = False"
| "py_eq_int i (PStr s) = False"
| "py_eq_int i (PList vs) = False"
| "py_eq_int i (PTuple vs) = False"

text \<open>\<open>i in vs\<close> for an integer \<open>i\<close> and a list \<open>vs\<close>: some element equals \<open>i\<close>.\<close>

fun py_in :: "int \<Rightarrow> pyval list \<Rightarrow> bool" where
  "py_in i [] = False"
| "py_in i (v # vs) = (py_eq_int i v \<or> py_in i vs)"

text \<open>\<open>"{}_{}".format(op, name)\<close>\<close>

definition format_key :: "string \<Rightarrow> string \<Rightarrow> string" where
  "format_key op nm = op @ ''_'' @ nm"

section \<open>The GroupBy object\<close>

text \<open>
  The fields \<open>_fr\<close>, \<open>_by\<close>, \<open>_aggs\<close> and \<open>_res\<close>.  The dictionary \<open>_aggs\<close> is an
  association list with distinct keys in insertion order, the order in which Python
  (from 3.7 on) iterates over a dictionary: assigning to a key that is present
  replaces its value in place, assigning to a new key appends it.
  \<open>_res\<close> is \<open>None\<close> until \<open>get_frame\<close> has built the result.
\<close>

record GroupBy =
  p_fr :: H2OFrame
  p_by :: "pyval list"
  p_aggs :: "(string, pyval list) alist"
  p_res :: "H2OFrame_handle option"

text \<open>
  GroupBy objects are mutable and the methods return references, so the objects live
  in a store: an address holds an object, a method takes the store and the address
  \<open>self\<close> and returns the store it leaves behind with what it returned or raised.
\<close>

type_synonym heap = "nat \<Rightarrow> GroupBy"

text \<open>
  \<open>GroupBy(fr, by)\<close>: the object the constructor builds, or the exception that
  \<open>names.index\<close> raises on an unknown column name.
\<close>

fun resolve_by :: "H2OFrame \<Rightarrow> pyval list \<Rightarrow> pyerr + pyval list" where
  "resolve_by fr [] = Inr []"
| "resolve_by fr (b # bs) =
     (case (case b of PStr s \<Rightarrow> (case list_index (names fr) s of
                                    Inl e \<Rightarrow> Inl e | Inr k \<Rightarrow> Inr (PInt (int k)))
                    | _ \<Rightarrow> Inr b) of
        Inl e \<Rightarrow> Inl e
      | Inr v \<Rightarrow> (case resolve_by fr bs of Inl e \<Rightarrow> Inl e | Inr vs \<Rightarrow> Inr (v # vs)))"

definition GroupBy_init :: "H2OFrame \<Rightarrow> pyval \<Rightarrow> pyerr + GroupBy" where
  "GroupBy_init fr by_arg =
     (case (case by_arg of
              PStr s \<Rightarrow> (case list_index (names fr) s of
                           Inl e \<Rightarrow> Inl e | Inr k \<Rightarrow> Inr [PInt (int k)])
            | PList bs \<Rightarrow> resolve_by fr bs
            | PTuple bs \<Rightarrow> resolve_by fr bs
            | _ \<Rightarrow> Inr [by_arg]) of
        Inl e \<Rightarrow> Inl e
      | Inr bl \<Rightarrow> Inr \<lparr>p_fr = fr, p_by = bl, p_aggs = DAList.empty, p_res = None\<rparr>)"

subsection \<open>Accumulating aggregations\<close>

text \<open>
  The last three lines of \<open>_add_agg\<close>: the key is built from the operation and the
  name of column \<open>cidx\<close>, and the triple is stored under it.
\<close>

definition store_agg :: "heap \<Rightarrow> nat \<Rightarrow> string \<Rightarrow> int \<Rightarrow> pyval \<Rightarrow> heap \<times> (pyerr + nat)" where
  "store_agg h self op cidx na =
     (case getitem (names (p_fr (h self))) cidx of
        Inl e \<Rightarrow> (h, Inl e)
      | Inr nm \<Rightarrow>
          (h(self := (h self)\<lparr>p_aggs :=
               DAList.update (format_key op nm) [PStr op, PInt cidx, na] (p_aggs (h self))\<rparr>),
           Inr self))"

text \<open>
  The loop of the branch \<open>col is None\<close>.  Its body calls \<open>self._add_agg(op, i, na)\<close>
  with an integer \<open>i\<close> and an operation that is not \<open>"nrow"\<close>; that call takes the
  integer branch and runs the last three lines, so the body is \<open>store_agg\<close>
  (lemma \<open>add_agg_PInt\<close> below shows that the two agree).  The test
  \<open>i not in self._by\<close> compares \<open>i\<close> with the elements of the grouping list by \<open>==\<close>.
\<close>

fun add_agg_range :: "heap \<Rightarrow> nat \<Rightarrow> string \<Rightarrow> nat list \<Rightarrow> pyval \<Rightarrow> heap \<times> (pyerr + unit)" where
  "add_agg_range h self op [] na = (h, Inr ())"
| "add_agg_range h self op (i # is) na =
     (if \<not> py_in (int i) (p_by (h self)) then
        (case store_agg h self op (int i) na of
           (h', Inl e) \<Rightarrow> (h', Inl e)
         | (h', Inr _) \<Rightarrow> add_agg_range h' self op is na)
      else add_agg_range h self op is na)"

function add_agg :: "heap \<Rightarrow> nat \<Rightarrow> string \<Rightarrow> pyval \<Rightarrow> pyval \<Rightarrow> heap \<times> (pyerr + nat)"
and add_agg_each :: "heap \<Rightarrow> nat \<Rightarrow> string \<Rightarrow> pyval list \<Rightarrow> pyval \<Rightarrow> heap \<times> (pyerr + unit)"
where
  "add_agg h self op col na =
     (case (if op = ''nrow'' then PInt 0 else col) of
        PNone \<Rightarrow>
          (case add_agg_range h self op [0 ..< ncol (p_fr (h self))] na of
             (h', Inl e) \<Rightarrow> (h', Inl e)
           | (h', Inr _) \<Rightarrow> (h', Inr self))
      | PStr s \<Rightarrow>
          (case list_index (names (p_fr (h self))) s of
             Inl e \<Rightarrow> (h, Inl e)
           | Inr k \<Rightarrow> store_agg h self op (int k) na)
      | PInt i \<Rightarrow> store_agg h self op i na
      | PList cs \<Rightarrow>
          (case add_agg_each h self op cs na of
             (h', Inl e) \<Rightarrow> (h', Inl e)
           | (h', Inr _) \<Rightarrow> (h', Inr self))
      | PTuple cs \<Rightarrow>
          (case add_agg_each h self op cs na of
             (h', Inl e) \<Rightarrow> (h', Inl e)
           | (h', Inr _) \<Rightarrow> (h', Inr self))
      | POther _ \<Rightarrow> (h, Inl ValueError))"
| "add_agg_each h self op [] na = (h, Inr ())"
| "add_agg_each h self op (c # cs) na =
     (case add_agg h self op c na of
        (h', Inl e) \<Rightarrow> (h', Inl e)
      | (h', Inr _) \<Rightarrow> add_agg_each h' self op cs na)"
  by pat_completeness auto

termination
  by (relation "measure (\<lambda>x. case x of
         Inl (h, self, op, col, na) \<Rightarrow> size col
       | Inr (h, self, op, cs, na) \<Rightarrow> size_list size cs)")
     (auto split: if_splits)

declare add_agg.simps(1) [simp del]

subsection \<open>The aggregation methods\<close>

text \<open>
  A call that leaves an argument out passes its default: \<open>PNone\<close> for \<open>col\<close>,
  \<open>PStr ''all''\<close> for \<open>na\<close>.
\<close>

definition min_gb :: "heap \<Rightarrow> nat \<Rightarrow> pyval \<Rightarrow> pyval \<Rightarrow> heap \<times> (pyerr + nat)" where
  "min_gb h self col na = add_agg h self ''min'' col na"

definition max_gb :: "heap \<Rightarrow> nat \<Rightarrow> pyval \<Rightarrow> pyval \<Rightarrow> heap \<times> (pyerr + nat)" where
  "max_gb h self col na = add_agg h self ''max'' col na"

definition mean_gb :: "heap \<Rightarrow> nat \<Rightarrow> pyval \<Rightarrow> pyval \<Rightarrow> heap \<times> (pyerr + nat)" where
  "mean_gb h self col na = add_agg h self ''mean'' col na"

definition count_gb :: "heap \<Rightarrow> nat \<Rightarrow> pyval \<Rightarrow> heap \<times> (pyerr + nat)" where
  "count_gb h self na = add_agg h self ''nrow'' PNone na"

definition sum_gb :: "heap \<Rightarrow> nat \<Rightarrow> pyval \<Rightarrow> pyval \<Rightarrow> heap \<times> (pyerr + nat)" where
  "sum_gb h self col na = add_agg h self ''sum'' col na"

definition sd_gb :: "heap \<Rightarrow> nat \<Rightarrow> pyval \<Rightarrow> pyval \<Rightarrow> heap \<times> (pyerr + nat)" where
  "sd_gb h self col na = add_agg h self ''sdev'' col na"

definition var_gb :: "heap \<Rightarrow> nat \<Rightarrow> pyval \<Rightarrow> pyval \<Rightarrow> heap \<times> (pyerr + nat)" where
  "var_gb h self col na = add_agg h self ''var'' col na"

definition ss_gb :: "heap \<Rightarrow> nat \<Rightarrow> pyval \<Rightarrow> pyval \<Rightarrow> heap \<times> (pyerr + nat)" where
  "ss_gb h self col na = add_agg h self ''sumSquares'' col na"

definition mode_gb :: "heap \<Rightarrow> nat \<Rightarrow> pyval \<Rightarrow> pyval \<Rightarrow> heap \<times> (pyerr + nat)" where
  "mode_gb h self col na = add_agg h self ''mode'' col na"

subsection \<open>Building the result\<close>

text \<open>
  The loop \<open>for k in self._aggs: aggs += self._aggs[k]\<close> over the keys of the
  dictionary; a subscript with a missing key would raise \<open>KeyError\<close>.
\<close>

fun collect_aggs :: "(string, pyval list) alist \<Rightarrow> string list \<Rightarrow> pyval list \<Rightarrow> pyerr + pyval list" where
  "collect_aggs d [] aggs = Inr aggs"
| "collect_aggs d (k # ks) aggs =
     (case DAList.lookup d k of
        None \<Rightarrow> Inl KeyError
      | Some v \<Rightarrow> collect_aggs d ks (aggs @ v))"

definition dict_keys :: "('k, 'v) alist \<Rightarrow> 'k list" where
  "dict_keys d = map fst (DAList.impl_of d)"

definition get_frame :: "heap \<Rightarrow> nat \<Rightarrow> heap \<times> (pyerr + H2OFrame_handle)" where
  "get_frame h self =
     (case p_res (h self) of
        None \<Rightarrow>
          (case collect_aggs (p_aggs (h self)) (dict_keys (p_aggs (h self))) [] of
             Inl e \<Rightarrow> (h, Inl e)
           | Inr aggs \<Rightarrow>
               (let r = H2OFrame_expr (ExprNode ''GB''
                          (ArgFrame (p_fr (h self)) # ArgVal (PList (p_by (h self))) # map ArgVal aggs))
                in (h(self := (h self)\<lparr>p_res := Some r\<rparr>), Inr r)))
      | Some r \<Rightarrow> (h, Inr r))"

definition frame :: "heap \<Rightarrow> nat \<Rightarrow> heap \<times> (pyerr + H2OFrame_handle)" where
  "frame h self = get_frame h self"

section \<open>Sequences of calls\<close>

text \<open>
  A client of a GroupBy object calls its public methods one after the other, and may
  catch what a call raises and go on; \<open>exec_calls\<close> is the store after such a run.
\<close>

datatype call =
    Min pyval pyval
  | Max pyval pyval
  | Mean pyval pyval
  | Count pyval
  | Sum pyval pyval
  | Sd pyval pyval
  | Var pyval pyval
  | Ss pyval pyval
  | Mode pyval pyval
  | GetFrame
  | Frame

datatype retval = RGroupBy nat | RFrame H2OFrame_handle

definition ret_self :: "heap \<times> (pyerr + nat) \<Rightarrow> heap \<times> (pyerr + retval)" where
  "ret_self r = (fst r, map_sum id RGroupBy (snd r))"

definition ret_frame :: "heap \<times> (pyerr + H2OFrame_handle) \<Rightarrow> heap \<times> (pyerr + retval)" where
  "ret_frame r = (fst r, map_sum id RFrame (snd r))"

fun exec_call :: "heap \<Rightarrow> nat \<Rightarrow> call \<Rightarrow> heap \<times> (pyerr + retval)" where
  "exec_call h self (Min col na) = ret_self (min_gb h self col na)"
| "exec_call h self (Max col na) = ret_self (max_gb h self col na)"
| "exec_call h self (Mean col na) = ret_self (mean_gb h self col na)"
| "exec_call h self (Count na) = ret_self (count_gb h self na)"
| "exec_call h self (Sum col na) = ret_self (sum_gb h self col na)"
| "exec_call h self (Sd col na) = ret_self (sd_gb h self col na)"
| "exec_call h self (Var col na) = ret_self (var_gb h self col na)"
| "exec_call h self (Ss col na) = ret_self (ss_gb h self col na)"
| "exec_call h self (Mode col na) = ret_self (mode_gb h self col na)"
| "exec_call h self GetFrame = ret_frame (get_frame h self)"
| "exec_call h self Frame = ret_frame (frame h self)"

fun exec_calls :: "heap \<Rightarrow> nat \<Rightarrow> call list \<Rightarrow> heap" where
  "exec_calls h self [] = h"
| "exec_calls h self (c # cs) = exec_calls (fst (exec_call h self c)) self cs"

section \<open>The specifications a call adds\<close>

text \<open>
  What \<open>_add_agg\<close> does to \<open>_aggs\<close> depends on the frame, the grouping list and the
  arguments only, not on what is accumulated already.  The functions below list the
  assignments \<open>self._aggs[name] = [op, cidx, na]\<close> of one call in the order they
  happen, with the exception that ends the call, if any.  They follow the branches
  of \<open>_add_agg\<close>; lemma \<open>add_agg_entries_both\<close> proves that \<open>add_agg\<close> performs
  exactly these assignments.
\<close>

type_synonym agg_entry = "string \<times> pyval list"

definition agg_entry :: "H2OFrame \<Rightarrow> string \<Rightarrow> int \<Rightarrow> pyval \<Rightarrow> pyerr + agg_entry" where
  "agg_entry fr op cidx na =
     (case getitem (names fr) cidx of
        Inl e \<Rightarrow> Inl e
      | Inr nm \<Rightarrow> Inr (format_key op nm, [PStr op, PInt cidx, na]))"

definition one_entry :: "pyerr + agg_entry \<Rightarrow> agg_entry list \<times> pyerr option" where
  "one_entry x = (case x of Inl e \<Rightarrow> ([], Some e) | Inr kv \<Rightarrow> ([kv], None))"

fun range_entries :: "H2OFrame \<Rightarrow> pyval list \<Rightarrow> string \<Rightarrow> nat list \<Rightarrow> pyval \<Rightarrow> agg_entry list \<times> pyerr option" where
  "range_entries fr bl op [] na = ([], None)"
| "range_entries fr bl op (i # is) na =
     (if \<not> py_in (int i) bl then
        (case agg_entry fr op (int i) na of
           Inl e \<Rightarrow> ([], Some e)
         | Inr kv \<Rightarrow> (case range_entries fr bl op is na of (es, r) \<Rightarrow> (kv # es, r)))
      else range_entries fr bl op is na)"

function agg_entries :: "H2OFrame \<Rightarrow> pyval list \<Rightarrow> string \<Rightarrow> pyval \<Rightarrow> pyval \<Rightarrow> agg_entry list \<times> pyerr option"
and each_entries :: "H2OFrame \<Rightarrow> pyval list \<Rightarrow> string \<Rightarrow> pyval list \<Rightarrow> pyval \<Rightarrow> agg_entry list \<times> pyerr option"
where
  "agg_entries fr bl op col na =
     (case (if op = ''nrow'' then PInt 0 else col) of
        PNone \<Rightarrow> range_entries fr bl op [0 ..< ncol fr] na
      | PStr s \<Rightarrow>
          (case list_index (names fr) s of
             Inl e \<Rightarrow> ([], Some e)
           | Inr k \<Rightarrow> one_entry (agg_entry fr op (int k) na))
      | PInt i \<Rightarrow> one_entry (agg_entry fr op i na)
      | PList cs \<Rightarrow> each_entries fr bl op cs na
      | PTuple cs \<Rightarrow> each_entries fr bl op cs na
      | POther _ \<Rightarrow> ([], Some ValueError))"
| "each_entries fr bl op [] na = ([], None)"
| "each_entries fr bl op (c # cs) na =
     (case agg_entries fr bl op c na of
        (es, Some e) \<Rightarrow> (es, Some e)
      | (es, None) \<Rightarrow> (case each_entries fr bl op cs na of (es', r) \<Rightarrow> (es @ es', r)))"
  by pat_completeness auto

termination
  by (relation "measure (\<lambda>x. case x of
         Inl (fr, bl, op, col, na) \<Rightarrow> size col
       | Inr (fr, bl, op, cs, na) \<Rightarrow> size_list size cs)")
     (auto split: if_splits)

declare agg_entries.simps(1) [simp del]

definition apply_entries :: "agg_entry list \<Rightarrow> (string, pyval list) alist \<Rightarrow> (string, pyval list) alist" where
  "apply_entries es d = fold (\<lambda>kv. DAList.update (fst kv) (snd kv)) es d"

text \<open>The store after the assignments \<open>es\<close> to \<open>self._aggs\<close>.\<close>

definition put_aggs :: "heap \<Rightarrow> nat \<Rightarrow> agg_entry list \<Rightarrow> heap" where
  "put_aggs h self es = h(self := (h self)\<lparr>p_aggs := apply_entries es (p_aggs (h self))\<rparr>)"

text \<open>The assignments of a public call; \<open>get_frame\<close> and \<open>frame\<close> make none.\<close>

fun call_entries :: "H2OFrame \<Rightarrow> pyval list \<Rightarrow> call \<Rightarrow> agg_entry list" where
  "call_entries fr bl (Min col na) = fst (agg_entries fr bl ''min'' col na)"
| "call_entries fr bl (Max col na) = fst (agg_entries fr bl ''max'' col na)"
| "call_entries fr bl (Mean col na) = fst (agg_entries fr bl ''mean'' col na)"
| "call_entries fr bl (Count na) = fst (agg_entries fr bl ''nrow'' PNone na)"
| "call_entries fr bl (Sum col na) = fst (agg_entries fr bl ''sum'' col na)"
| "call_entries fr bl (Sd col na) = fst (agg_entries fr bl ''sdev'' col na)"
| "call_entries fr bl (Var col na) = fst (agg_entries fr bl ''var'' col na)"
| "call_entries fr bl (Ss col na) = fst (agg_entries fr bl ''sumSquares'' col na)"
| "call_entries fr bl (Mode col na) = fst (agg_entries fr bl ''mode'' col na)"
| "call_entries fr bl GetFrame = []"
| "call_entries fr bl Frame = []"

definition calls_entries :: "H2OFrame \<Rightarrow> pyval list \<Rightarrow> call list \<Rightarrow> agg_entry list" where
  "calls_entries fr bl cs = concat (map (call_entries fr bl) cs)"

section \<open>A small frame and a GroupBy object on it\<close>

definition ex_frame :: H2OFrame where
  "ex_frame = \<lparr>frame_id = ''py_1'', names = [''g'', ''x'', ''s''], ncol = 3,
                types = [''enum'', ''real'', ''string'']\<rparr>"

definition ex_groupby :: GroupBy where
  "ex_groupby = \<lparr>p_fr = ex_frame, p_by = [PInt 0], p_aggs = DAList.empty, p_res = None\<rparr>"

definition ex_heap :: heap where
  "ex_heap = (\<lambda>a. ex_groupby)"

text \<open>The object \<open>GroupBy(ex_frame, 1.0)\<close>: the grouping list holds the float itself.\<close>

definition ex_groupby_float :: GroupBy where
  "ex_groupby_float =
     \<lparr>p_fr = ex_frame, p_by = [POther (Numeric 1 0)], p_aggs = DAList.empty, p_res = None\<rparr>"

definition ex_heap_float :: heap where
  "ex_heap_float = (\<lambda>a. ex_groupby_float)"

section \<open>Auxiliary facts\<close>

subsection \<open>A call performs its assignments and nothing else\<close>

lemma put_aggs_Nil [simp]: "put_aggs h self [] = h"
  by (simp add: put_aggs_def apply_entries_def)

lemma put_aggs_fr [simp]: "p_fr (put_aggs h self es a) = p_fr (h a)"
  and put_aggs_by [simp]: "p_by (put_aggs h self es a) = p_by (h a)"
  and put_aggs_res [simp]: "p_res (put_aggs h self es a) = p_res (h a)"
  by (simp_all add: put_aggs_def)

lemma put_aggs_aggs [simp]:
  "p_aggs (put_aggs h self es self) = apply_entries es (p_aggs (h self))"
  by (simp add: put_aggs_def)

lemma put_aggs_other [simp]: "a \<noteq> self \<Longrightarrow> put_aggs h self es a = h a"
  by (simp add: put_aggs_def)

lemma put_aggs_put_aggs [simp]:
  "put_aggs (put_aggs h self es) self es' = put_aggs h self (es @ es')"
  by (simp add: put_aggs_def apply_entries_def)

lemma store_agg_entry:
  "store_agg h self op cidx na =
     (case agg_entry (p_fr (h self)) op cidx na of
        Inl e \<Rightarrow> (h, Inl e)
      | Inr kv \<Rightarrow> (put_aggs h self [kv], Inr self))"
  by (simp add: store_agg_def agg_entry_def put_aggs_def apply_entries_def split: sum.splits)

text \<open>
  The call \<open>self._add_agg(op, i, na)\<close> in the loop over \<open>range(self._fr.ncol)\<close> is
  the integer branch followed by the last three lines.
\<close>

lemma add_agg_PInt:
  "op \<noteq> ''nrow'' \<Longrightarrow> add_agg h self op (PInt i) na = store_agg h self op i na"
  by (simp add: add_agg.simps(1))

lemma add_agg_range_entries:
  "add_agg_range h self op js na =
     (case range_entries (p_fr (h self)) (p_by (h self)) op js na of
        (es, r) \<Rightarrow> (put_aggs h self es, case r of None \<Rightarrow> Inr () | Some e \<Rightarrow> Inl e))"
proof (induction js arbitrary: h)
  case Nil
  show ?case by simp
next
  case (Cons i js)
  show ?case
    by (simp add: store_agg_entry Cons.IH split: sum.splits prod.splits option.splits)
qed

lemma add_agg_entries_both:
  "add_agg h self op col na =
     (case agg_entries (p_fr (h self)) (p_by (h self)) op col na of
        (es, r) \<Rightarrow> (put_aggs h self es, case r of None \<Rightarrow> Inr self | Some e \<Rightarrow> Inl e))"
  "add_agg_each h self op cs na =
     (case each_entries (p_fr (h self)) (p_by (h self)) op cs na of
        (es, r) \<Rightarrow> (put_aggs h self es, case r of None \<Rightarrow> Inr () | Some e \<Rightarrow> Inl e))"
proof (induction h self op col na and h self op cs na rule: add_agg_add_agg_each.induct)
  case (1 h self op col na)
  show ?case
  proof (cases "if op = ''nrow'' then PInt 0 else col")
    case PNone
    then show ?thesis
      by (simp add: add_agg.simps(1) agg_entries.simps(1) add_agg_range_entries
          split: prod.splits option.splits)
  next
    case (PStr s)
    then show ?thesis
      by (simp add: add_agg.simps(1) agg_entries.simps(1) store_agg_entry one_entry_def
          split: sum.splits)
  next
    case (PInt i)
    then show ?thesis
      by (simp add: add_agg.simps(1) agg_entries.simps(1) store_agg_entry one_entry_def
          split: sum.splits)
  next
    case (PList cs)
    with "1.IH"(1) [OF PList] show ?thesis
      by (simp add: add_agg.simps(1) agg_entries.simps(1) split: prod.splits option.splits)
  next
    case (PTuple cs)
    with "1.IH"(2) [OF PTuple] show ?thesis
      by (simp add: add_agg.simps(1) agg_entries.simps(1) split: prod.splits option.splits)
  next
    case (POther x)
    then show ?thesis
      by (simp add: add_agg.simps(1) agg_entries.simps(1))
  qed
next
  case (2 h self op na)
  show ?case by simp
next
  case (3 h self op c cs na)
  show ?case
  proof (cases "agg_entries (p_fr (h self)) (p_by (h self)) op c na")
    case (Pair es r)
    show ?thesis
    proof (cases r)
      case (Some e)
      with Pair "3.IH"(1) show ?thesis by simp
    next
      case None
      with Pair "3.IH"(1) have a: "add_agg h self op c na = (put_aggs h self es, Inr self)"
        by simp
      from "3.IH"(2) [OF a [symmetric] refl] a Pair None show ?thesis
        by (simp split: prod.splits)
    qed
  qed
qed


subsection \<open>The dictionary\<close>

lemma dict_keys_distinct [simp]: "distinct (dict_keys d)"
  by (simp add: dict_keys_def)

lemma dict_keys_empty [simp]: "dict_keys DAList.empty = []"
  by (simp add: dict_keys_def empty.rep_eq)

lemma dict_keys_update:
  "dict_keys (DAList.update k v d) =
     (if k \<in> set (dict_keys d) then dict_keys d else dict_keys d @ [k])"
  by (simp add: dict_keys_def update.rep_eq update_keys)

lemma lookup_dict_keys: "k \<in> set (dict_keys d) \<longleftrightarrow> DAList.lookup d k \<noteq> None"
  by (simp add: dict_keys_def lookup.rep_eq map_of_eq_None_iff)

lemma count_dict_keys:
  "count_list (dict_keys d) k = (if DAList.lookup d k = None then 0 else 1)"
proof -
  have "distinct xs \<Longrightarrow> count_list xs k = (if k \<in> set xs then 1 else 0)" for xs :: "'a list"
    by (induction xs) auto
  from this [of "dict_keys d"] show ?thesis
    by (simp add: lookup_dict_keys)
qed

lemma assoc_list_by_keys:
  "distinct (map fst xs) \<Longrightarrow> xs = map (\<lambda>k. (k, the (map_of xs k))) (map fst xs)"
proof (induction xs)
  case Nil
  show ?case by simp
next
  case (Cons x xs)
  then have "map (\<lambda>k. (k, the (map_of (x # xs) k))) (map fst xs)
           = map (\<lambda>k. (k, the (map_of xs k))) (map fst xs)"
    by (intro map_cong) (auto simp: image_iff)
  with Cons show ?case by (cases x) simp
qed

lemma dict_eqI:
  assumes "dict_keys d = dict_keys d'" and "DAList.lookup d = DAList.lookup d'"
  shows "d = d'"
proof -
  have "DAList.impl_of d = map (\<lambda>k. (k, the (DAList.lookup d k))) (dict_keys d)"
    using assoc_list_by_keys [of "DAList.impl_of d"]
    by (simp add: dict_keys_def lookup.rep_eq)
  moreover have "DAList.impl_of d' = map (\<lambda>k. (k, the (DAList.lookup d' k))) (dict_keys d')"
    using assoc_list_by_keys [of "DAList.impl_of d'"]
    by (simp add: dict_keys_def lookup.rep_eq)
  ultimately have "DAList.impl_of d = DAList.impl_of d'"
    using assms by simp
  then show ?thesis by (simp add: impl_of_inject)
qed

lemma apply_entries_Nil [simp]: "apply_entries [] d = d"
  by (simp add: apply_entries_def)

lemma apply_entries_Cons [simp]:
  "apply_entries (kv # es) d = apply_entries es (DAList.update (fst kv) (snd kv) d)"
  by (simp add: apply_entries_def)

lemma apply_entries_append [simp]:
  "apply_entries (es @ es') d = apply_entries es' (apply_entries es d)"
  by (simp add: apply_entries_def)

lemma lookup_apply_entries:
  "DAList.lookup (apply_entries es d) = DAList.lookup d ++ map_of (rev es)"
proof (induction es arbitrary: d)
  case Nil
  show ?case by simp
next
  case (Cons kv es)
  show ?case
    by (rule ext) (simp add: Cons.IH lookup_update map_add_def split: option.splits)
qed

lemma keys_apply_entries:
  "set (dict_keys (apply_entries es d)) = set (dict_keys d) \<union> fst ` set es"
  by (induction es arbitrary: d) (auto simp: dict_keys_update)

lemma keys_apply_entries_same:
  "fst ` set es \<subseteq> set (dict_keys d) \<Longrightarrow> dict_keys (apply_entries es d) = dict_keys d"
  by (induction es arbitrary: d) (auto simp: dict_keys_update)

lemma apply_entries_idem:
  "apply_entries es (apply_entries es d) = apply_entries es d"
proof (rule dict_eqI)
  show "dict_keys (apply_entries es (apply_entries es d)) = dict_keys (apply_entries es d)"
    by (rule keys_apply_entries_same) (simp add: keys_apply_entries)
  show "DAList.lookup (apply_entries es (apply_entries es d)) = DAList.lookup (apply_entries es d)"
    by (rule ext) (simp add: lookup_apply_entries map_add_def split: option.splits)
qed

lemma collect_aggs_values:
  "set ys \<subseteq> set (DAList.impl_of d) \<Longrightarrow>
     collect_aggs d (map fst ys) acc = Inr (acc @ concat (map snd ys))"
proof (induction ys arbitrary: acc)
  case Nil
  show ?case by simp
next
  case (Cons y ys)
  then have y: "map_of (DAList.impl_of d) (fst y) = Some (snd y)"
    by (intro map_of_is_SomeI) auto
  from Cons.prems show ?case
    by (simp add: lookup.rep_eq y Cons.IH)
qed

lemma collect_aggs_all:
  "collect_aggs d (dict_keys d) [] = Inr (concat (map snd (DAList.impl_of d)))"
  using collect_aggs_values [of "DAList.impl_of d" d "[]"] by (simp add: dict_keys_def)

subsection \<open>Building the result, and runs of calls\<close>

lemma get_frame_fresh:
  "p_res (h self) = None \<Longrightarrow>
   get_frame h self =
     (h(self := (h self)\<lparr>p_res := Some (H2OFrame_expr (ExprNode ''GB''
          (ArgFrame (p_fr (h self)) # ArgVal (PList (p_by (h self))) #
           map ArgVal (concat (map snd (DAList.impl_of (p_aggs (h self))))))))\<rparr>),
      Inr (H2OFrame_expr (ExprNode ''GB''
          (ArgFrame (p_fr (h self)) # ArgVal (PList (p_by (h self))) #
           map ArgVal (concat (map snd (DAList.impl_of (p_aggs (h self)))))))))"
  by (simp add: get_frame_def collect_aggs_all Let_def)

lemma get_frame_cached:
  "p_res (h self) = Some r \<Longrightarrow> get_frame h self = (h, Inr r)"
  by (simp add: get_frame_def)

lemma get_frame_sets_res:
  "\<exists>r. snd (get_frame h self) = Inr r \<and> p_res (fst (get_frame h self) self) = Some r"
  by (cases "p_res (h self)") (simp_all add: get_frame_fresh get_frame_cached)

lemma get_frame_fields:
  "p_fr (fst (get_frame h self) a) = p_fr (h a)"
  "p_by (fst (get_frame h self) a) = p_by (h a)"
  "p_aggs (fst (get_frame h self) a) = p_aggs (h a)"
  by (cases "p_res (h self)"; simp add: get_frame_fresh get_frame_cached)+

lemma add_agg_fst:
  "fst (add_agg h self op col na) =
     put_aggs h self (fst (agg_entries (p_fr (h self)) (p_by (h self)) op col na))"
  by (simp add: add_agg_entries_both split: prod.splits)

lemma add_agg_snd:
  "snd (add_agg h self op col na) =
     (case snd (agg_entries (p_fr (h self)) (p_by (h self)) op col na) of
        None \<Rightarrow> Inr self | Some e \<Rightarrow> Inl e)"
  by (simp add: add_agg_entries_both split: prod.splits)

lemmas method_defs =
  min_gb_def max_gb_def mean_gb_def count_gb_def sum_gb_def sd_gb_def var_gb_def
  ss_gb_def mode_gb_def

lemma exec_call_fields:
  "p_fr (fst (exec_call h self c) a) = p_fr (h a)"
  "p_by (fst (exec_call h self c) a) = p_by (h a)"
  by (cases c; simp add: ret_self_def ret_frame_def frame_def method_defs add_agg_fst get_frame_fields)+

lemma exec_call_p_aggs:
  "p_aggs (fst (exec_call h self c) self) =
     apply_entries (call_entries (p_fr (h self)) (p_by (h self)) c) (p_aggs (h self))"
  by (cases c) (simp_all add: ret_self_def ret_frame_def frame_def method_defs add_agg_fst get_frame_fields)

lemma exec_call_res:
  "p_res (h self) = Some r \<Longrightarrow> p_res (fst (exec_call h self c) self) = Some r"
  by (cases c) (simp_all add: ret_self_def ret_frame_def frame_def method_defs add_agg_fst get_frame_cached)

lemma exec_calls_fields:
  "p_fr (exec_calls h self cs a) = p_fr (h a)"
  "p_by (exec_calls h self cs a) = p_by (h a)"
  by (induction cs arbitrary: h; simp add: exec_call_fields)+

lemma exec_calls_res:
  "p_res (h self) = Some r \<Longrightarrow> p_res (exec_calls h self cs self) = Some r"
  by (induction cs arbitrary: h) (simp_all add: exec_call_res)

lemma exec_calls_p_aggs:
  "p_aggs (exec_calls h self cs self) =
     apply_entries (calls_entries (p_fr (h self)) (p_by (h self)) cs) (p_aggs (h self))"
  by (induction cs arbitrary: h)
     (simp_all add: calls_entries_def exec_call_p_aggs exec_call_fields)

subsection \<open>Python primitives\<close>

lemma list_index_Inr:
  "list_index xs x = Inr k \<Longrightarrow> k < length xs \<and> xs ! k = x \<and> x \<notin> set (take k xs)"
proof (induction xs arbitrary: k)
  case Nil
  then show ?case by simp
next
  case (Cons y ys)
  show ?case
  proof (cases "y = x")
    case True
    with Cons.prems show ?thesis by simp
  next
    case False
    with Cons.prems obtain j where j: "list_index ys x = Inr j" and k: "k = Suc j"
      by (auto split: sum.splits)
    from Cons.IH [OF j] False k show ?thesis by simp
  qed
qed

lemma list_index_Inl_iff:
  "list_index xs x = Inl e \<longleftrightarrow> e = ValueError \<and> x \<notin> set xs"
  by (induction xs) (auto split: sum.splits)

lemma list_index_found:
  "x \<in> set xs \<Longrightarrow> \<exists>k. list_index xs x = Inr k"
  by (cases "list_index xs x") (auto simp: list_index_Inl_iff)

lemma py_in_iff: "py_in i vs \<longleftrightarrow> (\<exists>v\<in>set vs. py_eq_int i v)"
  by (induction vs) auto

lemma py_in_PInt: "PInt i \<in> set vs \<Longrightarrow> py_in i vs"
proof -
  assume "PInt i \<in> set vs"
  moreover have "py_eq_int i (PInt i)"
    by simp
  ultimately show ?thesis
    unfolding py_in_iff by (rule bexI [rotated])
qed

lemma getitem_nat:
  "k < length xs \<Longrightarrow> getitem xs (int k) = Inr (xs ! k)"
  by (simp add: getitem_def)

lemma format_key_inject:
  assumes "CHR ''_'' \<notin> set op" and "CHR ''_'' \<notin> set op'"
  shows "format_key op nm = format_key op' nm' \<longleftrightarrow> op = op' \<and> nm = nm'"
proof -
  have "op @ CHR ''_'' # nm = op' @ CHR ''_'' # nm' \<Longrightarrow> op = op' \<and> nm = nm'"
    using assms
  proof (induction op arbitrary: op')
    case Nil
    then show ?case by (cases op') auto
  next
    case (Cons c cs)
    then show ?case by (cases op') auto
  qed
  then show ?thesis by (auto simp: format_key_def)
qed

lemma format_key_same_op [simp]:
  "format_key op nm = format_key op nm' \<longleftrightarrow> nm = nm'"
  by (simp add: format_key_def)

subsection \<open>The constructor\<close>

lemma resolve_by_list_all2:
  "list_all2 (\<lambda>b v. case b of
        PStr s \<Rightarrow> (\<exists>k. list_index (names fr) s = Inr k \<and> v = PInt (int k))
      | _ \<Rightarrow> v = b) bs bl \<Longrightarrow>
   resolve_by fr bs = Inr bl"
proof (induction bs bl rule: list_all2_induct)
  case Nil
  show ?case by simp
next
  case (Cons b bs v bl)
  then show ?case
    by (cases b) auto
qed

lemma GroupBy_init_fields:
  "GroupBy_init fr by_arg = Inr g \<Longrightarrow> p_fr g = fr \<and> p_aggs g = DAList.empty \<and> p_res g = None"
  by (auto simp: GroupBy_init_def split: sum.splits)

subsection \<open>Facts about the assignments of a call\<close>

lemma lookup_last_entry:
  "k \<notin> fst ` set es2 \<Longrightarrow>
   DAList.lookup (apply_entries (es1 @ (k, v) # es2) d) k = Some v"
  by (simp add: lookup_apply_entries map_add_def map_of_eq_None_iff [THEN iffD2]
      split: option.splits)

lemma map_of_rev_distinct:
  "distinct (map fst xs) \<Longrightarrow> map_of (rev xs) = map_of xs"
proof -
  assume d: "distinct (map fst xs)"
  then have "distinct (map fst (rev xs))"
    by (simp add: rev_map [symmetric])
  from map_of_inject_set [OF this d] show ?thesis by simp
qed

lemma agg_entry_nat:
  "i < length (names fr) \<Longrightarrow>
   agg_entry fr op (int i) na = Inr (format_key op (names fr ! i), [PStr op, PInt (int i), na])"
  by (simp add: agg_entry_def getitem_nat)

lemma range_entries_in_range:
  "\<forall>j\<in>set js. j < length (names fr) \<Longrightarrow>
   range_entries fr bl op js na =
     (map (\<lambda>i. (format_key op (names fr ! i), [PStr op, PInt (int i), na]))
        (filter (\<lambda>i. \<not> py_in (int i) bl) js), None)"
  by (induction js) (simp_all add: agg_entry_nat)

lemma agg_entries_PNone:
  assumes "op \<noteq> ''nrow''" and "ncol fr = length (names fr)"
  shows "agg_entries fr bl op PNone na =
     (map (\<lambda>i. (format_key op (names fr ! i), [PStr op, PInt (int i), na]))
        (filter (\<lambda>i. \<not> py_in (int i) bl) [0 ..< ncol fr]), None)"
  using assms by (simp add: agg_entries.simps(1) range_entries_in_range)

lemma column_entries_distinct:
  assumes "distinct ns" and "\<forall>i\<in>set js. i < length ns" and "distinct js"
  shows "distinct (map fst (map (\<lambda>i. (format_key op (ns ! i), f i)) js))"
proof -
  have "inj_on (\<lambda>i. format_key op (ns ! i)) (set js)"
    using assms(1,2) by (auto simp: inj_on_def nth_eq_iff_index_eq)
  with assms(3) show ?thesis
    by (simp add: distinct_map comp_def)
qed

subsection \<open>Replacing a specification\<close>

lemma range_entries_keys_na:
  "map fst (fst (range_entries fr bl op js na)) = map fst (fst (range_entries fr bl op js na'))
   \<and> snd (range_entries fr bl op js na) = snd (range_entries fr bl op js na')"
  by (induction js) (auto simp: agg_entry_def split: sum.splits prod.splits)

lemma one_entry_keys_na:
  "map fst (fst (one_entry (agg_entry fr op i na))) = map fst (fst (one_entry (agg_entry fr op i na')))
   \<and> snd (one_entry (agg_entry fr op i na)) = snd (one_entry (agg_entry fr op i na'))"
  by (simp add: one_entry_def agg_entry_def split: sum.splits)

lemma agg_entries_keys_na:
  "map fst (fst (agg_entries fr bl op col na)) = map fst (fst (agg_entries fr bl op col na'))
   \<and> snd (agg_entries fr bl op col na) = snd (agg_entries fr bl op col na')"
  "map fst (fst (each_entries fr bl op cs na)) = map fst (fst (each_entries fr bl op cs na'))
   \<and> snd (each_entries fr bl op cs na) = snd (each_entries fr bl op cs na')"
proof (induction fr bl op col na and fr bl op cs na rule: agg_entries_each_entries.induct)
  case (1 fr bl op col na)
  show ?case
  proof (cases "if op = ''nrow'' then PInt 0 else col")
    case PNone
    then show ?thesis
      using range_entries_keys_na [of fr bl op _ na na']
      by (simp add: agg_entries.simps(1))
  next
    case (PStr s)
    then show ?thesis
      using one_entry_keys_na [of fr op _ na na']
      by (simp add: agg_entries.simps(1) split: sum.splits)
  next
    case (PInt i)
    then show ?thesis
      using one_entry_keys_na [of fr op _ na na']
      by (simp add: agg_entries.simps(1))
  next
    case (PList cs)
    with "1.IH"(1) [OF PList] show ?thesis
      by (simp add: agg_entries.simps(1))
  next
    case (PTuple cs)
    with "1.IH"(2) [OF PTuple] show ?thesis
      by (simp add: agg_entries.simps(1))
  next
    case (POther x)
    then show ?thesis
      by (simp add: agg_entries.simps(1))
  qed
next
  case (2 fr bl op na)
  show ?case by simp
next
  case (3 fr bl op c cs na)
  obtain es r where a: "agg_entries fr bl op c na = (es, r)"
    by (cases "agg_entries fr bl op c na")
  obtain es' r' where a': "agg_entries fr bl op c na' = (es', r')"
    by (cases "agg_entries fr bl op c na'")
  from "3.IH"(1) a a' have same: "map fst es = map fst es'" and "r' = r"
    by simp_all
  with a' have a'': "agg_entries fr bl op c na' = (es', r)"
    by simp
  show ?case
  proof (cases r)
    case (Some e)
    with a a'' same show ?thesis by simp
  next
    case None
    from "3.IH"(2) [OF a [symmetric] None] a a'' same None show ?thesis
      by (auto split: prod.splits)
  qed
qed

lemma dict_keys_apply_entries:
  "dict_keys (apply_entries es d) =
     fold (\<lambda>k ks. if k \<in> set ks then ks else ks @ [k]) (map fst es) (dict_keys d)"
  by (induction es arbitrary: d) (simp_all add: dict_keys_update)

lemma apply_entries_overwrite:
  assumes "map fst es = map fst es'"
  shows "apply_entries es' (apply_entries es d) = apply_entries es' d"
proof (rule dict_eqI)
  have "fst ` set es' = fst ` set es"
    using assms by (metis set_map)
  then have "dict_keys (apply_entries es' (apply_entries es d)) = dict_keys (apply_entries es d)"
    by (intro keys_apply_entries_same) (simp add: keys_apply_entries)
  also have "\<dots> = dict_keys (apply_entries es' d)"
    by (simp add: dict_keys_apply_entries assms)
  finally show "dict_keys (apply_entries es' (apply_entries es d)) = dict_keys (apply_entries es' d)" .
  have dom: "dom (map_of (rev es)) = dom (map_of (rev es'))"
    using assms by (simp add: dom_map_of_conv_image_fst) (metis set_map)
  show "DAList.lookup (apply_entries es' (apply_entries es d)) = DAList.lookup (apply_entries es' d)"
  proof (rule ext)
    fix k
    show "DAList.lookup (apply_entries es' (apply_entries es d)) k = DAList.lookup (apply_entries es' d) k"
    proof -
      have "map_of (rev es) k = None \<longleftrightarrow> map_of (rev es') k = None"
        using dom by (metis domIff)
      then show ?thesis
        by (cases "map_of (rev es') k") (simp_all add: lookup_apply_entries map_add_def)
    qed
  qed
qed


lemma add_agg_replaces:
  "add_agg (fst (add_agg h self op col na)) self op col na' = add_agg h self op col na'"
proof -
  obtain es r where a: "agg_entries (p_fr (h self)) (p_by (h self)) op col na = (es, r)"
    by (cases "agg_entries (p_fr (h self)) (p_by (h self)) op col na")
  obtain es' r' where a': "agg_entries (p_fr (h self)) (p_by (h self)) op col na' = (es', r')"
    by (cases "agg_entries (p_fr (h self)) (p_by (h self)) op col na'")
  from agg_entries_keys_na(1) [of "p_fr (h self)" "p_by (h self)" op col na na'] a a'
  have same: "map fst es = map fst es'" by simp
  have "put_aggs (put_aggs h self es) self es' = put_aggs h self es'"
    by (simp add: put_aggs_def apply_entries_overwrite [OF same])
  then show ?thesis
    by (simp add: add_agg_entries_both(1) a a' del: put_aggs_put_aggs)
qed

section \<open>Properties of the builder\<close>

lemmas ex_defs = ex_frame_def ex_groupby_def ex_heap_def

text \<open>
  C1.  On a GroupBy object whose result has not been built yet (\<open>_res\<close> is \<open>None\<close>),
  \<open>get_frame\<close> builds one expression node with head \<open>"GB"\<close> whose arguments are the
  stored frame, the list of grouping indices and then the concatenation of all
  accumulated \<open>[op, cidx, na]\<close> triples, stores the handle made from that expression
  in \<open>_res\<close> and returns it, however many triples there are.
\<close>

theorem get_frame_serializes:
  "p_res (h self) = None \<Longrightarrow>
   get_frame h self =
     (h(self := (h self)\<lparr>p_res := Some (H2OFrame_expr (ExprNode ''GB''
          (ArgFrame (p_fr (h self)) # ArgVal (PList (p_by (h self))) #
           map ArgVal (concat (map snd (DAList.impl_of (p_aggs (h self))))))))\<rparr>),
      Inr (H2OFrame_expr (ExprNode ''GB''
          (ArgFrame (p_fr (h self)) # ArgVal (PList (p_by (h self))) #
           map ArgVal (concat (map snd (DAList.impl_of (p_aggs (h self)))))))))"
  by (rule get_frame_fresh)

theorem get_frame_serializes_witness:
  "p_res (exec_calls ex_heap 0 [Min PNone (PStr ''all'')] 0) = None \<and>
   snd (get_frame (exec_calls ex_heap 0 [Min PNone (PStr ''all'')]) 0) =
     Inr (H2OFrame_expr (ExprNode ''GB''
       [ArgFrame ex_frame, ArgVal (PList [PInt 0]),
        ArgVal (PStr ''min''), ArgVal (PInt 1), ArgVal (PStr ''all''),
        ArgVal (PStr ''min''), ArgVal (PInt 2), ArgVal (PStr ''all'')]))"
proof -
  let ?h = "exec_calls ex_heap 0 [Min PNone (PStr ''all'')]"
  have fresh: "p_res (?h 0) = None"
    by code_simp
  have fields: "p_fr (?h 0) = ex_frame" "p_by (?h 0) = [PInt 0]"
    "DAList.impl_of (p_aggs (?h 0)) =
       [(''min_x'', [PStr ''min'', PInt 1, PStr ''all'']),
        (''min_s'', [PStr ''min'', PInt 2, PStr ''all''])]"
    by code_simp+
  from get_frame_serializes [of ?h 0, OF fresh]
  have "snd (get_frame ?h 0) = Inr (H2OFrame_expr (ExprNode ''GB''
          (ArgFrame (p_fr (?h 0)) # ArgVal (PList (p_by (?h 0))) #
           map ArgVal (concat (map snd (DAList.impl_of (p_aggs (?h 0))))))))"
    by simp
  with fresh show ?thesis
    by (simp only: fields) simp
qed




text \<open>
  C3.  The constructor resolves column names to indices.  A string \<open>by\<close> gives the
  singleton list of its index in \<open>fr.names\<close>; a list or tuple gives the list in
  which every string element is replaced by its index and every other element is
  kept; a value of any other type gives the singleton list of that value.
\<close>

theorem init_resolves_by:
  "(list_index (names fr) s = Inr k \<longrightarrow>
      GroupBy_init fr (PStr s) =
        Inr \<lparr>p_fr = fr, p_by = [PInt (int k)], p_aggs = DAList.empty, p_res = None\<rparr>) \<and>
   (list_all2 (\<lambda>b v. case b of
          PStr s' \<Rightarrow> (\<exists>k'. list_index (names fr) s' = Inr k' \<and> v = PInt (int k'))
        | _ \<Rightarrow> v = b) bs bl \<longrightarrow>
      GroupBy_init fr (PList bs) =
        Inr \<lparr>p_fr = fr, p_by = bl, p_aggs = DAList.empty, p_res = None\<rparr> \<and>
      GroupBy_init fr (PTuple bs) =
        Inr \<lparr>p_fr = fr, p_by = bl, p_aggs = DAList.empty, p_res = None\<rparr>) \<and>
   ((\<forall>s'. by_arg \<noteq> PStr s') \<and> (\<forall>cs. by_arg \<noteq> PList cs) \<and> (\<forall>cs. by_arg \<noteq> PTuple cs) \<longrightarrow>
      GroupBy_init fr by_arg =
        Inr \<lparr>p_fr = fr, p_by = [by_arg], p_aggs = DAList.empty, p_res = None\<rparr>)"
proof (intro conjI impI)
  assume "list_index (names fr) s = Inr k"
  then show "GroupBy_init fr (PStr s) =
      Inr \<lparr>p_fr = fr, p_by = [PInt (int k)], p_aggs = DAList.empty, p_res = None\<rparr>"
    by (simp add: GroupBy_init_def)
next
  assume r: "list_all2 (\<lambda>b v. case b of
          PStr s' \<Rightarrow> (\<exists>k'. list_index (names fr) s' = Inr k' \<and> v = PInt (int k'))
        | _ \<Rightarrow> v = b) bs bl"
  from resolve_by_list_all2 [OF r]
  show "GroupBy_init fr (PList bs) =
      Inr \<lparr>p_fr = fr, p_by = bl, p_aggs = DAList.empty, p_res = None\<rparr>"
    and "GroupBy_init fr (PTuple bs) =
      Inr \<lparr>p_fr = fr, p_by = bl, p_aggs = DAList.empty, p_res = None\<rparr>"
    by (simp_all add: GroupBy_init_def)
next
  assume "(\<forall>s'. by_arg \<noteq> PStr s') \<and> (\<forall>cs. by_arg \<noteq> PList cs) \<and> (\<forall>cs. by_arg \<noteq> PTuple cs)"
  then show "GroupBy_init fr by_arg =
      Inr \<lparr>p_fr = fr, p_by = [by_arg], p_aggs = DAList.empty, p_res = None\<rparr>"
    by (cases by_arg) (simp_all add: GroupBy_init_def)
qed

theorem init_resolves_by_witness:
  "list_index (names ex_frame) ''x'' = Inr 1 \<and>
   GroupBy_init ex_frame (PStr ''x'') =
     Inr \<lparr>p_fr = ex_frame, p_by = [PInt 1], p_aggs = DAList.empty, p_res = None\<rparr> \<and>
   GroupBy_init ex_frame (PList [PStr ''s'', PInt 7, PNone, PStr ''g'']) =
     Inr \<lparr>p_fr = ex_frame, p_by = [PInt 2, PInt 7, PNone, PInt 0],
          p_aggs = DAList.empty, p_res = None\<rparr> \<and>
   GroupBy_init ex_frame (PTuple [PStr ''s'', PInt 7, PNone, PStr ''g'']) =
     Inr \<lparr>p_fr = ex_frame, p_by = [PInt 2, PInt 7, PNone, PInt 0],
          p_aggs = DAList.empty, p_res = None\<rparr> \<and>
   GroupBy_init ex_frame (PInt 1) =
     Inr \<lparr>p_fr = ex_frame, p_by = [PInt 1], p_aggs = DAList.empty, p_res = None\<rparr>"
proof -
  have h1: "list_index (names ex_frame) ''x'' = Inr 1"
    by code_simp
  have i2: "list_index (names ex_frame) ''s'' = Inr 2"
    and i0: "list_index (names ex_frame) ''g'' = Inr 0"
    by code_simp+
  have h2: "list_all2 (\<lambda>b v. case b of
          PStr s' \<Rightarrow> (\<exists>k'. list_index (names ex_frame) s' = Inr k' \<and> v = PInt (int k'))
        | _ \<Rightarrow> v = b)
      [PStr ''s'', PInt 7, PNone, PStr ''g''] [PInt 2, PInt 7, PNone, PInt 0]"
    by (simp add: i2 i0)
  have h3: "(\<forall>s'. PInt 1 \<noteq> PStr s') \<and> (\<forall>cs. PInt 1 \<noteq> PList cs) \<and> (\<forall>cs. PInt 1 \<noteq> PTuple cs)"
    by simp
  from init_resolves_by [of ex_frame "''x''" 1
      "[PStr ''s'', PInt 7, PNone, PStr ''g'']" "[PInt 2, PInt 7, PNone, PInt 0]" "PInt 1"]
    h1 h2 h3
  show ?thesis by simp
qed

text \<open>
  C4.  An aggregation method that takes a column (any operation but \<open>"nrow"\<close>) called
  with a string \<open>col\<close> stores the index \<open>fr.names.index(col)\<close>, called with an integer
  \<open>col\<close> stores that integer unchanged; in both cases the triple \<open>[op, cidx, na]\<close> is
  assigned to the key \<open>"{op}_{fr.names[cidx]}"\<close>, and the call returns \<open>self\<close>.
\<close>

theorem add_agg_single_column:
  "op \<noteq> ''nrow'' \<Longrightarrow>
   (list_index (names (p_fr (h self))) s = Inr k \<longrightarrow>
      add_agg h self op (PStr s) na =
        (h(self := (h self)\<lparr>p_aggs :=
             DAList.update (format_key op (names (p_fr (h self)) ! k))
               [PStr op, PInt (int k), na] (p_aggs (h self))\<rparr>),
         Inr self)) \<and>
   (getitem (names (p_fr (h self))) i = Inr nm \<longrightarrow>
      add_agg h self op (PInt i) na =
        (h(self := (h self)\<lparr>p_aggs :=
             DAList.update (format_key op nm) [PStr op, PInt i, na] (p_aggs (h self))\<rparr>),
         Inr self))"
proof (intro conjI impI)
  assume op: "op \<noteq> ''nrow''" and "list_index (names (p_fr (h self))) s = Inr k"
  moreover from this have "getitem (names (p_fr (h self))) (int k) = Inr (names (p_fr (h self)) ! k)"
    by (simp add: list_index_Inr getitem_nat)
  ultimately show "add_agg h self op (PStr s) na =
        (h(self := (h self)\<lparr>p_aggs :=
             DAList.update (format_key op (names (p_fr (h self)) ! k))
               [PStr op, PInt (int k), na] (p_aggs (h self))\<rparr>),
         Inr self)"
    by (simp add: add_agg.simps(1) store_agg_def)
next
  assume "op \<noteq> ''nrow''" and "getitem (names (p_fr (h self))) i = Inr nm"
  then show "add_agg h self op (PInt i) na =
        (h(self := (h self)\<lparr>p_aggs :=
             DAList.update (format_key op nm) [PStr op, PInt i, na] (p_aggs (h self))\<rparr>),
         Inr self)"
    by (simp add: add_agg.simps(1) store_agg_def)
qed

theorem add_agg_single_column_witness:
  "''max'' \<noteq> ''nrow'' \<and>
   list_index (names (p_fr (ex_heap 0))) ''x'' = Inr 1 \<and>
   getitem (names (p_fr (ex_heap 0))) (- 1) = Inr ''s'' \<and>
   DAList.impl_of (p_aggs (fst (max_gb ex_heap 0 (PStr ''x'') (PStr ''rm'')) 0)) =
     [(''max_x'', [PStr ''max'', PInt 1, PStr ''rm''])] \<and>
   snd (max_gb ex_heap 0 (PStr ''x'') (PStr ''rm'')) = Inr 0 \<and>
   DAList.impl_of (p_aggs (fst (max_gb ex_heap 0 (PInt (- 1)) (PStr ''rm'')) 0)) =
     [(''max_s'', [PStr ''max'', PInt (- 1), PStr ''rm''])] \<and>
   snd (max_gb ex_heap 0 (PInt (- 1)) (PStr ''rm'')) = Inr 0"
proof -
  have h1: "''max'' \<noteq> ''nrow''"
    by simp
  have h2: "list_index (names (p_fr (ex_heap 0))) ''x'' = Inr 1"
    and h3: "getitem (names (p_fr (ex_heap 0))) (- 1) = Inr ''s''"
    by code_simp+
  have vals: "names (p_fr (ex_heap 0)) ! Suc 0 = ''x''" "p_aggs (ex_heap 0) = DAList.empty"
    by (simp_all add: ex_defs)
  from add_agg_single_column [OF h1, of ex_heap 0 "''x''" 1 "PStr ''rm''" "- 1" "''s''"] h2 h3
  show ?thesis
    by (simp add: h1 max_gb_def vals format_key_def update.rep_eq empty.rep_eq)
qed

text \<open>
  C5.  Each of the nine aggregation methods, when it does not raise, returns the
  reference \<open>self\<close> it was called on.
\<close>

theorem aggregation_returns_self:
  "(snd (min_gb h self col na) = Inr r \<longrightarrow> r = self) \<and>
   (snd (max_gb h self col na) = Inr r \<longrightarrow> r = self) \<and>
   (snd (mean_gb h self col na) = Inr r \<longrightarrow> r = self) \<and>
   (snd (count_gb h self na) = Inr r \<longrightarrow> r = self) \<and>
   (snd (sum_gb h self col na) = Inr r \<longrightarrow> r = self) \<and>
   (snd (sd_gb h self col na) = Inr r \<longrightarrow> r = self) \<and>
   (snd (var_gb h self col na) = Inr r \<longrightarrow> r = self) \<and>
   (snd (ss_gb h self col na) = Inr r \<longrightarrow> r = self) \<and>
   (snd (mode_gb h self col na) = Inr r \<longrightarrow> r = self)"
  by (simp add: method_defs add_agg_snd split: option.splits)

theorem aggregation_returns_self_witness:
  "(\<exists>r. snd (min_gb ex_heap 5 (PList [PStr ''x'', PInt 2]) (PStr ''all'')) = Inr r) \<and>
   (\<exists>r. snd (max_gb ex_heap 5 (PList [PStr ''x'', PInt 2]) (PStr ''all'')) = Inr r) \<and>
   (\<exists>r. snd (mean_gb ex_heap 5 (PList [PStr ''x'', PInt 2]) (PStr ''all'')) = Inr r) \<and>
   (\<exists>r. snd (count_gb ex_heap 5 (PStr ''all'')) = Inr r) \<and>
   (\<exists>r. snd (sum_gb ex_heap 5 (PList [PStr ''x'', PInt 2]) (PStr ''all'')) = Inr r) \<and>
   (\<exists>r. snd (sd_gb ex_heap 5 (PList [PStr ''x'', PInt 2]) (PStr ''all'')) = Inr r) \<and>
   (\<exists>r. snd (var_gb ex_heap 5 (PList [PStr ''x'', PInt 2]) (PStr ''all'')) = Inr r) \<and>
   (\<exists>r. snd (ss_gb ex_heap 5 (PList [PStr ''x'', PInt 2]) (PStr ''all'')) = Inr r) \<and>
   (\<exists>r. snd (mode_gb ex_heap 5 (PList [PStr ''x'', PInt 2]) (PStr ''all'')) = Inr r) \<and>
   snd (min_gb ex_heap 5 (PList [PStr ''x'', PInt 2]) (PStr ''all'')) = Inr 5"
proof -
  have ok: "snd (min_gb ex_heap 5 (PList [PStr ''x'', PInt 2]) (PStr ''all'')) = Inr 5"
    "snd (max_gb ex_heap 5 (PList [PStr ''x'', PInt 2]) (PStr ''all'')) = Inr 5"
    "snd (mean_gb ex_heap 5 (PList [PStr ''x'', PInt 2]) (PStr ''all'')) = Inr 5"
    "snd (count_gb ex_heap 5 (PStr ''all'')) = Inr 5"
    "snd (sum_gb ex_heap 5 (PList [PStr ''x'', PInt 2]) (PStr ''all'')) = Inr 5"
    "snd (sd_gb ex_heap 5 (PList [PStr ''x'', PInt 2]) (PStr ''all'')) = Inr 5"
    "snd (var_gb ex_heap 5 (PList [PStr ''x'', PInt 2]) (PStr ''all'')) = Inr 5"
    "snd (ss_gb ex_heap 5 (PList [PStr ''x'', PInt 2]) (PStr ''all'')) = Inr 5"
    "snd (mode_gb ex_heap 5 (PList [PStr ''x'', PInt 2]) (PStr ''all'')) = Inr 5"
    by code_simp+
  from aggregation_returns_self [of ex_heap 5 "PList [PStr ''x'', PInt 2]" "PStr ''all''" 5] ok
  show ?thesis by simp
qed

text \<open>
  C6.  Calling \<open>_add_agg\<close> a second time with the same operation, column and
  na-policy changes nothing: the store and the outcome are those of the first call.
\<close>

theorem add_agg_idempotent:
  "add_agg (fst (add_agg h self op col na)) self op col na = add_agg h self op col na"
  by (rule add_agg_replaces)

text \<open>
  C7.  No call changes \<open>_fr\<close> or \<open>_by\<close>: after any run of aggregation calls,
  \<open>get_frame()\<close> calls and reads of \<open>frame\<close> on an object the constructor built, both
  fields hold what the constructor stored.
\<close>

theorem inputs_never_mutated:
  "GroupBy_init fr by_arg = Inr g \<Longrightarrow> h self = g \<Longrightarrow>
   p_fr (exec_calls h self cs self) = fr \<and> p_by (exec_calls h self cs self) = p_by g"
  by (auto simp: exec_calls_fields dest: GroupBy_init_fields)

theorem inputs_never_mutated_witness:
  "GroupBy_init ex_frame (PStr ''g'') = Inr ex_groupby \<and> ex_heap 0 = ex_groupby \<and>
   p_fr (exec_calls ex_heap 0
      [Min PNone (PStr ''all''), GetFrame, Max (PStr ''x'') (PStr ''rm''),
       Sum (POther (Opaque 0)) PNone, Count (PStr ''all''), Frame] 0) = ex_frame \<and>
   p_by (exec_calls ex_heap 0
      [Min PNone (PStr ''all''), GetFrame, Max (PStr ''x'') (PStr ''rm''),
       Sum (POther (Opaque 0)) PNone, Count (PStr ''all''), Frame] 0) = [PInt 0]"
proof -
  have h1: "GroupBy_init ex_frame (PStr ''g'') = Inr ex_groupby"
    by (simp add: GroupBy_init_def ex_defs)
  have h2: "ex_heap 0 = ex_groupby"
    by (simp add: ex_heap_def)
  have by0: "p_by ex_groupby = [PInt 0]"
    by (simp add: ex_groupby_def)
  from inputs_never_mutated [of ex_frame "PStr ''g''" ex_groupby ex_heap 0
      "[Min PNone (PStr ''all''), GetFrame, Max (PStr ''x'') (PStr ''rm''),
        Sum (POther (Opaque 0)) PNone, Count (PStr ''all''), Frame]", OF h1 h2] h1 h2 by0
  show ?thesis by simp
qed

text \<open>
  C8.  For an operation other than \<open>"nrow"\<close>, on a frame whose \<open>ncol\<close> is the number of
  its names, a call with \<open>col = None\<close> makes one assignment of \<open>[op, i, na]\<close>, under
  the key of column \<open>i\<close>, for every column index \<open>i\<close> below \<open>ncol\<close> that is not in the
  grouping list (no element of the list compares equal to \<open>i\<close>), in increasing
  order, makes no other assignment and returns \<open>self\<close>.
  When the column names are distinct, each of these triples is then held under its
  key and every other key holds what it held before.  The column types play no
  part: the statement holds for every value of \<open>types\<close>.
\<close>

theorem add_agg_all_columns:
  assumes op: "op \<noteq> ''nrow''"
    and ncol: "ncol (p_fr (h self)) = length (names (p_fr (h self)))"
  shows "add_agg h self op PNone na =
      (put_aggs h self
         (map (\<lambda>i. (format_key op (names (p_fr (h self)) ! i), [PStr op, PInt (int i), na]))
            (filter (\<lambda>i. \<not> py_in (int i) (p_by (h self))) [0 ..< ncol (p_fr (h self))])),
       Inr self) \<and>
    (distinct (names (p_fr (h self))) \<longrightarrow>
      (\<forall>i < ncol (p_fr (h self)). \<not> py_in (int i) (p_by (h self)) \<longrightarrow>
         DAList.lookup (p_aggs (fst (add_agg h self op PNone na) self))
             (format_key op (names (p_fr (h self)) ! i))
           = Some [PStr op, PInt (int i), na]) \<and>
      (\<forall>k. (\<forall>i < ncol (p_fr (h self)). py_in (int i) (p_by (h self)) \<or>
                 k \<noteq> format_key op (names (p_fr (h self)) ! i)) \<longrightarrow>
         DAList.lookup (p_aggs (fst (add_agg h self op PNone na) self)) k
           = DAList.lookup (p_aggs (h self)) k))"
proof -
  define ns where "ns = names (p_fr (h self))"
  define js where "js = filter (\<lambda>i. \<not> py_in (int i) (p_by (h self))) [0 ..< ncol (p_fr (h self))]"
  define es where "es = map (\<lambda>i. (format_key op (ns ! i), [PStr op, PInt (int i), na])) js"
  have entries: "agg_entries (p_fr (h self)) (p_by (h self)) op PNone na = (es, None)"
    using agg_entries_PNone [OF op ncol] by (simp add: es_def js_def ns_def)
  then have run: "add_agg h self op PNone na = (put_aggs h self es, Inr self)"
    by (simp add: add_agg_entries_both(1))
  have js: "\<forall>i\<in>set js. i < length ns" "distinct js"
    using ncol by (auto simp: js_def ns_def)
  have stored: "(\<forall>i < ncol (p_fr (h self)). \<not> py_in (int i) (p_by (h self)) \<longrightarrow>
         DAList.lookup (p_aggs (fst (add_agg h self op PNone na) self)) (format_key op (ns ! i))
           = Some [PStr op, PInt (int i), na]) \<and>
      (\<forall>k. (\<forall>i < ncol (p_fr (h self)). py_in (int i) (p_by (h self)) \<or>
                 k \<noteq> format_key op (ns ! i)) \<longrightarrow>
         DAList.lookup (p_aggs (fst (add_agg h self op PNone na) self)) k
           = DAList.lookup (p_aggs (h self)) k)"
    if dist: "distinct ns"
  proof -
    have d: "distinct (map fst es)"
      unfolding es_def using dist js by (intro column_entries_distinct) auto
    have look: "DAList.lookup (p_aggs (fst (add_agg h self op PNone na) self)) =
        DAList.lookup (p_aggs (h self)) ++ map_of es"
      by (simp add: run lookup_apply_entries map_of_rev_distinct [OF d])
    have present: "DAList.lookup (p_aggs (fst (add_agg h self op PNone na) self))
        (format_key op (ns ! i)) = Some [PStr op, PInt (int i), na]"
      if "i < ncol (p_fr (h self))" "\<not> py_in (int i) (p_by (h self))" for i
    proof -
      from that have "i \<in> set js" by (simp add: js_def)
      then have "(format_key op (ns ! i), [PStr op, PInt (int i), na]) \<in> set es"
        by (auto simp: es_def)
      from map_of_is_SomeI [OF d this] show ?thesis
        by (simp add: look)
    qed
    have others: "DAList.lookup (p_aggs (fst (add_agg h self op PNone na) self)) k
        = DAList.lookup (p_aggs (h self)) k"
      if "\<forall>i < ncol (p_fr (h self)). py_in (int i) (p_by (h self)) \<or> k \<noteq> format_key op (ns ! i)"
      for k
    proof -
      from that have "k \<notin> fst ` set es"
        by (auto simp: es_def js_def)
      then have "map_of es k = None"
        by (simp add: map_of_eq_None_iff)
      then show ?thesis by (simp add: look map_add_def)
    qed
    from present others show ?thesis by blast
  qed
  from run stored show ?thesis
    unfolding es_def js_def ns_def by blast
qed

theorem add_agg_all_columns_witness:
  "''min'' \<noteq> ''nrow'' \<and>
   ncol (p_fr (ex_heap_float 0)) = length (names (p_fr (ex_heap_float 0))) \<and>
   distinct (names (p_fr (ex_heap_float 0))) \<and>
   (2::nat) < ncol (p_fr (ex_heap_float 0)) \<and> \<not> py_in (int 2) (p_by (ex_heap_float 0)) \<and>
   py_in (int 1) (p_by (ex_heap_float 0)) \<and> PInt (int 1) \<notin> set (p_by (ex_heap_float 0)) \<and>
   types (p_fr (ex_heap_float 0)) ! 2 = ''string'' \<and>
   add_agg ex_heap_float 0 ''min'' PNone (PStr ''all'') =
     (put_aggs ex_heap_float 0
        [(''min_g'', [PStr ''min'', PInt 0, PStr ''all'']),
         (''min_s'', [PStr ''min'', PInt 2, PStr ''all''])],
      Inr 0) \<and>
   DAList.lookup (p_aggs (fst (add_agg ex_heap_float 0 ''min'' PNone (PStr ''all'')) 0))
       (format_key ''min'' (names (p_fr (ex_heap_float 0)) ! 2))
     = Some [PStr ''min'', PInt (int 2), PStr ''all'']"
proof -
  have h1: "''min'' \<noteq> ''nrow''"
    by simp
  have h2: "ncol (p_fr (ex_heap_float 0)) = length (names (p_fr (ex_heap_float 0)))"
    and h3: "distinct (names (p_fr (ex_heap_float 0)))"
    and h4: "(2::nat) < ncol (p_fr (ex_heap_float 0))"
    and h5: "\<not> py_in (int 2) (p_by (ex_heap_float 0))"
    and eq1: "py_in (int 1) (p_by (ex_heap_float 0))"
    and ne1: "PInt (int 1) \<notin> set (p_by (ex_heap_float 0))"
    and ty: "types (p_fr (ex_heap_float 0)) ! 2 = ''string''"
    by (simp_all add: ex_defs ex_groupby_float_def ex_heap_float_def)
  have cols: "map (\<lambda>i. (format_key ''min'' (names (p_fr (ex_heap_float 0)) ! i),
                    [PStr ''min'', PInt (int i), PStr ''all'']))
        (filter (\<lambda>i. \<not> py_in (int i) (p_by (ex_heap_float 0)))
           [0 ..< ncol (p_fr (ex_heap_float 0))])
      = [(''min_g'', [PStr ''min'', PInt 0, PStr ''all'']),
         (''min_s'', [PStr ''min'', PInt 2, PStr ''all''])]"
    by (simp add: ex_defs ex_groupby_float_def ex_heap_float_def format_key_def upt_conv_Cons)
  note all = add_agg_all_columns [where op = "''min''" and h = ex_heap_float and self = 0
      and na = "PStr ''all''", OF h1 h2]
  from all have run: "add_agg ex_heap_float 0 ''min'' PNone (PStr ''all'') =
     (put_aggs ex_heap_float 0
        [(''min_g'', [PStr ''min'', PInt 0, PStr ''all'']),
         (''min_s'', [PStr ''min'', PInt 2, PStr ''all''])],
      Inr 0)"
    unfolding cols by (rule conjunct1)
  from all h3 have "\<forall>i < ncol (p_fr (ex_heap_float 0)). \<not> py_in (int i) (p_by (ex_heap_float 0)) \<longrightarrow>
       DAList.lookup (p_aggs (fst (add_agg ex_heap_float 0 ''min'' PNone (PStr ''all'')) 0))
           (format_key ''min'' (names (p_fr (ex_heap_float 0)) ! i))
         = Some [PStr ''min'', PInt (int i), PStr ''all'']"
    by blast
  with h4 h5 have "DAList.lookup (p_aggs (fst (add_agg ex_heap_float 0 ''min'' PNone (PStr ''all'')) 0))
       (format_key ''min'' (names (p_fr (ex_heap_float 0)) ! 2))
     = Some [PStr ''min'', PInt (int 2), PStr ''all'']"
    by blast
  with h1 h2 h3 h4 h5 eq1 ne1 ty run show ?thesis
    by blast
qed

text \<open>
  C9.  \<open>get_frame()\<close> returns a handle, and from then on the result is cached:
  whatever aggregation calls, \<open>get_frame()\<close> calls and reads of \<open>frame\<close> follow, a
  later \<open>get_frame()\<close> and a later read of \<open>frame\<close> return that same handle.
\<close>

theorem result_is_cached:
  "(\<exists>r. snd (get_frame h self) = Inr r) \<and>
   snd (get_frame (exec_calls (fst (get_frame h self)) self cs) self) = snd (get_frame h self) \<and>
   snd (frame (exec_calls (fst (get_frame h self)) self cs) self) = snd (get_frame h self)"
proof -
  from get_frame_sets_res [of h self] obtain r
    where r: "snd (get_frame h self) = Inr r" "p_res (fst (get_frame h self) self) = Some r"
    by blast
  from exec_calls_res [where h = "fst (get_frame h self)" and self = self and r = r
      and cs = cs, OF r(2)]
  have "get_frame (exec_calls (fst (get_frame h self)) self cs) self =
      (exec_calls (fst (get_frame h self)) self cs, Inr r)"
    by (rule get_frame_cached)
  with r(1) show ?thesis
    by (simp add: frame_def)
qed

text \<open>
  C10.  Each aggregation method that takes a column, called with a \<open>col\<close> that is
  neither \<open>None\<close> nor a string, an integer, a list or a tuple, raises \<open>ValueError\<close>
  and leaves the store, and with it the accumulated specifications, as it was.
\<close>

theorem unsupported_col_raises:
  "min_gb h self (POther x) na = (h, Inl ValueError) \<and>
   max_gb h self (POther x) na = (h, Inl ValueError) \<and>
   mean_gb h self (POther x) na = (h, Inl ValueError) \<and>
   sum_gb h self (POther x) na = (h, Inl ValueError) \<and>
   sd_gb h self (POther x) na = (h, Inl ValueError) \<and>
   var_gb h self (POther x) na = (h, Inl ValueError) \<and>
   ss_gb h self (POther x) na = (h, Inl ValueError) \<and>
   mode_gb h self (POther x) na = (h, Inl ValueError)"
  by (simp add: method_defs add_agg.simps(1))

end
